theory Spec2Isabelle
  imports Main "HOL-Library.Word"
begin

unbundle bit_operations_syntax

section \<open>Ignition firmware (FIRMWARE/main.c): registers and constants\<close>

text \<open>
  The firmware runs on a PIC 16F1824 compiled with HI-TECH C: \<open>unsigned int\<close> and
  \<open>int\<close> are 16 bits wide, the special function registers are 8 bits wide.  The state
  holds the registers that \<open>main\<close> reads or writes, the global \<open>freq\<close>, and a clock
  \<open>elapsed_ms\<close> that counts the calls of the compiler's \<open>__delay_ms(1)\<close>.  The
  configuration registers that \<open>init\<close> writes and nothing reads afterwards (oscillator,
  analog selects, comparators, converters, PWM, timers 2, 4 and 6, interrupt enables)
  are left out of the state.
\<close>

record mcu =
  LATA :: "8 word"
  LATC :: "8 word"
  T1CON :: "8 word"
  TMR1H :: "8 word"
  TMR1L :: "8 word"
  freq :: "16 word"
  elapsed_ms :: nat

definition IGNITION_MIN :: "16 word" where "IGNITION_MIN = 300"
definition IGNITION_MAX :: "16 word" where "IGNITION_MAX = 600"
definition YODA_MIN :: "16 word" where "YODA_MIN = 4500"
definition YODA_MAX :: "16 word" where "YODA_MAX = 5500"

definition ON :: "16 word" where "ON = 1"
definition OFF :: "16 word" where "OFF = 0"

text \<open>
  A one-bit field of a register.  Reading it gives 0 or 1 as an \<open>int\<close>; assigning an
  \<open>int\<close> to it stores the lowest bit of the value.
\<close>

definition bitfield_read :: "nat \<Rightarrow> 8 word \<Rightarrow> 16 word" where
  "bitfield_read n r = (if bit r n then 1 else 0)"

definition bitfield_write :: "nat \<Rightarrow> 16 word \<Rightarrow> 8 word \<Rightarrow> 8 word" where
  "bitfield_write n v r = (if bit v 0 then set_bit n r else unset_bit n r)"

text \<open>The port macros of the source: \<open>LATCbits.LATC0\<close>, \<open>LATC1\<close>, \<open>LATC5\<close>,
  \<open>LATAbits.LATA4\<close>, and the \<open>TMR1ON\<close> bit (bit 0 of \<open>T1CON\<close>).\<close>

definition LED_IGNITION :: "mcu \<Rightarrow> bool" where "LED_IGNITION s = bit (LATC s) 0"
definition LED_LINK :: "mcu \<Rightarrow> bool" where "LED_LINK s = bit (LATC s) 1"
definition MOS_GATE :: "mcu \<Rightarrow> bool" where "MOS_GATE s = bit (LATC s) 5"
definition INPUT_DISABLE :: "mcu \<Rightarrow> bool" where "INPUT_DISABLE s = bit (LATA s) 4"
definition TMR1ON :: "mcu \<Rightarrow> bool" where "TMR1ON s = bit (T1CON s) 0"

text \<open>The 16-bit value of Timer1, held in the two registers \<open>TMR1H\<close> and \<open>TMR1L\<close>.\<close>

definition tmr1 :: "mcu \<Rightarrow> 16 word" where
  "tmr1 s = push_bit 8 (ucast (TMR1H s)) OR ucast (TMR1L s)"

text \<open>
  The hardware counter: while \<open>TMR1ON\<close> is set, every edge on the clock input pin
  increments the 16-bit timer, which wraps around; while it is clear the timer holds its
  value.  \<open>p\<close> is the number of edges that arrive.
\<close>

definition timer1_count :: "nat \<Rightarrow> mcu \<Rightarrow> mcu" where
  "timer1_count p s =
     (if TMR1ON s
      then (let c = tmr1 s + of_nat p
            in s\<lparr>TMR1H := ucast (drop_bit 8 c), TMR1L := ucast c\<rparr>)
      else s)"

section \<open>The functions of the source\<close>

text \<open>\<open>init\<close>: ports and latches are cleared (a write to \<open>PORTx\<close> writes the latch),
  and Timer1 is configured with \<open>T1CON = 0b10000100\<close>, the timer off.\<close>

definition init :: "mcu \<Rightarrow> mcu" where
  "init s = s\<lparr>LATA := 0, LATC := 0, T1CON := 0x84\<rparr>"

text \<open>\<open>__delay_ms(1)\<close>: one millisecond passes.\<close>

definition delay_ms_1 :: "mcu \<Rightarrow> mcu" where
  "delay_ms_1 s = s\<lparr>elapsed_ms := elapsed_ms s + 1\<rparr>"

text \<open>The loop of \<open>delayerMs\<close>: \<open>for(i=0;i<delay;i++) __delay_ms(1);\<close> with
  \<open>unsigned int\<close> \<open>i\<close> and \<open>delay\<close>.\<close>

function delayerMs_loop :: "16 word \<Rightarrow> 16 word \<Rightarrow> mcu \<Rightarrow> mcu" where
  "delayerMs_loop i delay s =
     (if i < delay then delayerMs_loop (i + 1) delay (delay_ms_1 s) else s)"
  by pat_completeness auto
termination
proof (relation "measure (\<lambda>(i, delay, s). unat delay - unat i)")
  show "wf (measure (\<lambda>(i, delay, s). unat delay - unat i))" by simp
next
  fix i delay :: "16 word" and s :: mcu
  assume less: "i < delay"
  then have "unat delay - unat (i + 1) < unat delay - unat i"
    by unat_arith
  then show "((i + 1, delay, delay_ms_1 s), (i, delay, s))
      \<in> measure (\<lambda>(i, delay, s). unat delay - unat i)"
    by simp
qed

text \<open>\<open>delayerMs(delay)\<close>, during which \<open>p\<close> edges arrive at the clock input pin.\<close>

definition delayerMs :: "16 word \<Rightarrow> nat \<Rightarrow> mcu \<Rightarrow> mcu" where
  "delayerMs delay p s = timer1_count p (delayerMs_loop 0 delay s)"

section \<open>The statements of \<open>main\<close> and their traces\<close>

text \<open>
  The statements that \<open>main\<close> executes, one constructor per kind of statement of the
  source.  \<open>Call_delayerMs delay p\<close> is the call \<open>delayerMs(delay)\<close> during which
  \<open>p\<close> edges arrive at the clock input pin; \<open>Read_TMR1H\<close> is \<open>freq = TMR1H\<close> and
  \<open>Merge_TMR1L\<close> is \<open>freq = ((freq<<8)|(TMR1L))\<close>; \<open>Toggle_LED_LINK\<close> is
  \<open>LED_LINK = ~LED_LINK\<close>.
\<close>

datatype stmt =
    Call_init
  | Set_LED_IGNITION "16 word"
  | Set_LED_LINK "16 word"
  | Toggle_LED_LINK
  | Set_MOS_GATE "16 word"
  | Set_INPUT_DISABLE "16 word"
  | Set_TMR1ON "16 word"
  | Call_delayerMs "16 word" nat
  | Clear_TMR1H
  | Clear_TMR1L
  | Read_TMR1H
  | Merge_TMR1L

fun exec :: "stmt \<Rightarrow> mcu \<Rightarrow> mcu" where
  "exec Call_init s = init s"
| "exec (Set_LED_IGNITION v) s = s\<lparr>LATC := bitfield_write 0 v (LATC s)\<rparr>"
| "exec (Set_LED_LINK v) s = s\<lparr>LATC := bitfield_write 1 v (LATC s)\<rparr>"
| "exec Toggle_LED_LINK s =
     s\<lparr>LATC := bitfield_write 1 (NOT (bitfield_read 1 (LATC s))) (LATC s)\<rparr>"
| "exec (Set_MOS_GATE v) s = s\<lparr>LATC := bitfield_write 5 v (LATC s)\<rparr>"
| "exec (Set_INPUT_DISABLE v) s = s\<lparr>LATA := bitfield_write 4 v (LATA s)\<rparr>"
| "exec (Set_TMR1ON v) s = s\<lparr>T1CON := bitfield_write 0 v (T1CON s)\<rparr>"
| "exec (Call_delayerMs delay p) s = delayerMs delay p s"
| "exec Clear_TMR1H s = s\<lparr>TMR1H := 0\<rparr>"
| "exec Clear_TMR1L s = s\<lparr>TMR1L := 0\<rparr>"
| "exec Read_TMR1H s = s\<lparr>freq := ucast (TMR1H s)\<rparr>"
| "exec Merge_TMR1L s = s\<lparr>freq := push_bit 8 (freq s) OR ucast (TMR1L s)\<rparr>"

text \<open>Running a sequence of statements: the final state, and the trace that pairs each
  statement with the state it leaves.\<close>

fun execs :: "stmt list \<Rightarrow> mcu \<Rightarrow> mcu" where
  "execs [] s = s"
| "execs (c # cs) s = execs cs (exec c s)"

fun run :: "stmt list \<Rightarrow> mcu \<Rightarrow> (stmt \<times> mcu) list" where
  "run [] s = []"
| "run (c # cs) s = (c, exec c s) # run cs (exec c s)"

subsection \<open>The startup blink\<close>

text \<open>\<open>for(i=0;i<5;i++) { ... }\<close> of \<open>main\<close>, with \<open>unsigned int i\<close>.  \<open>q k\<close> is the
  number of edges at the clock input pin during the \<open>k\<close>-th call of \<open>delayerMs\<close>.\<close>

function startup_stmts :: "(nat \<Rightarrow> nat) \<Rightarrow> 16 word \<Rightarrow> stmt list" where
  "startup_stmts q i =
     (if i < 5
      then [Set_LED_IGNITION ON, Set_LED_LINK OFF, Call_delayerMs 50 (q (2 * unat i)),
            Set_LED_IGNITION OFF, Set_LED_LINK ON, Call_delayerMs 50 (q (2 * unat i + 1))]
           @ startup_stmts q (i + 1)
      else [])"
  by pat_completeness auto
termination
proof (relation "measure (\<lambda>(q, i). 5 - unat i)")
  show "wf (measure (\<lambda>(q, i). 5 - unat i))" by simp
next
  fix q :: "nat \<Rightarrow> nat" and i :: "16 word"
  assume less: "i < 5"
  have "j < d \<Longrightarrow> unat (j + 1) = Suc (unat j)" for j d :: "16 word"
    by unat_arith
  from this [OF less] have "unat (i + 1) = Suc (unat i)" .
  moreover from less have "unat i < 5"
    by (simp add: word_less_nat_alt)
  ultimately have "5 - unat (i + 1) < 5 - unat i"
    by simp
  then show "((q, i + 1), (q, i)) \<in> measure (\<lambda>(q, i). 5 - unat i)"
    by simp
qed

subsection \<open>The steady-state loop\<close>

text \<open>The three branches of the \<open>if\<close> / \<open>else if\<close> / \<open>else\<close> of the loop body, and the
  conditions on \<open>freq\<close> that select them.\<close>

datatype band = IGNITION | LINK_OK | IDLE

definition classify :: "16 word \<Rightarrow> band" where
  "classify f =
     (if f \<ge> IGNITION_MIN \<and> f \<le> IGNITION_MAX then IGNITION
      else if f \<ge> YODA_MIN \<and> f \<le> YODA_MAX then LINK_OK
      else IDLE)"

fun branch_stmts :: "band \<Rightarrow> stmt list" where
  "branch_stmts IGNITION = [Set_LED_IGNITION ON, Set_LED_LINK OFF, Set_MOS_GATE ON]"
| "branch_stmts LINK_OK = [Set_LED_IGNITION OFF, Toggle_LED_LINK, Set_MOS_GATE OFF]"
| "branch_stmts IDLE = [Set_LED_IGNITION OFF, Set_MOS_GATE OFF, Set_LED_LINK ON]"

text \<open>The statements of the loop body before the \<open>if\<close>: the measurement window and the
  read of the count into \<open>freq\<close>.\<close>

definition window_stmts :: "nat \<Rightarrow> stmt list" where
  "window_stmts p =
     [Set_TMR1ON ON, Call_delayerMs 1000 p, Set_TMR1ON OFF, Read_TMR1H, Merge_TMR1L]"

definition reset_stmts :: "stmt list" where
  "reset_stmts = [Clear_TMR1H, Clear_TMR1L]"

text \<open>One pass of the loop body from state \<open>s\<close>, with \<open>p\<close> edges during its window.\<close>

definition cycle_stmts :: "nat \<Rightarrow> mcu \<Rightarrow> stmt list" where
  "cycle_stmts p s =
     window_stmts p @ branch_stmts (classify (freq (execs (window_stmts p) s))) @ reset_stmts"

definition cycle :: "nat \<Rightarrow> mcu \<Rightarrow> mcu" where
  "cycle p s = execs (cycle_stmts p s) s"

text \<open>\<open>while (TRUE)\<close>: the loop never ends; \<open>loop_stmts ps s\<close> is its execution over
  the first \<open>length ps\<close> passes, \<open>ps\<close> giving the edges of each window.\<close>

fun loop_stmts :: "nat list \<Rightarrow> mcu \<Rightarrow> stmt list" where
  "loop_stmts [] s = []"
| "loop_stmts (p # ps) s = cycle_stmts p s @ loop_stmts ps (cycle p s)"

fun cycles :: "nat list \<Rightarrow> mcu \<Rightarrow> mcu list" where
  "cycles [] s = []"
| "cycles (p # ps) s = cycle p s # cycles ps (cycle p s)"

text \<open>\<open>main\<close> up to the loop, and \<open>main\<close> with the first passes of the loop.\<close>

definition prologue_stmts :: "(nat \<Rightarrow> nat) \<Rightarrow> stmt list" where
  "prologue_stmts q =
     [Call_init] @ startup_stmts q 0 @ [Clear_TMR1H, Clear_TMR1L, Set_INPUT_DISABLE OFF]"

definition loop_entry :: "(nat \<Rightarrow> nat) \<Rightarrow> mcu \<Rightarrow> mcu" where
  "loop_entry q s0 = execs (prologue_stmts q) s0"

definition main_stmts :: "(nat \<Rightarrow> nat) \<Rightarrow> nat list \<Rightarrow> mcu \<Rightarrow> stmt list" where
  "main_stmts q ps s0 = prologue_stmts q @ loop_stmts ps (loop_entry q s0)"

definition main_trace :: "(nat \<Rightarrow> nat) \<Rightarrow> nat list \<Rightarrow> mcu \<Rightarrow> (stmt \<times> mcu) list" where
  "main_trace q ps s0 = run (main_stmts q ps s0) s0"

text \<open>The calls of \<open>delayerMs\<close> among the statements.\<close>

fun is_delay :: "stmt \<Rightarrow> bool" where
  "is_delay (Call_delayerMs d p) = True"
| "is_delay c = False"

section \<open>Bit fields, the delay and the timer\<close>

declare delayerMs_loop.simps [simp del] startup_stmts.simps [simp del]

lemma bit_bitfield_write:
  "bit (bitfield_write n v r) m = (if m = n \<and> n < 8 then bit v 0 else bit r m)"
  by (auto simp: bitfield_write_def bit_set_bit_iff bit_unset_bit_iff dest: bit_imp_le_length)

lemma bit_NOT_bitfield_read: "bit (NOT (bitfield_read n r)) 0 = (\<not> bit r n)"
  by (simp add: bitfield_read_def bit_not_iff)

lemma bit_ON_OFF: "bit ON 0" "\<not> bit OFF 0"
  by (simp_all add: ON_def OFF_def)

lemma delayerMs_loop_elapsed:
  "delayerMs_loop i d s = s\<lparr>elapsed_ms := elapsed_ms s + (unat d - unat i)\<rparr>"
proof (induction i d s rule: delayerMs_loop.induct)
  case (1 i delay s)
  show ?case
  proof (cases "i < delay")
    case True
    have "j < d \<Longrightarrow> unat (j + 1) = Suc (unat j)" for j d :: "16 word"
      by unat_arith
    from this [OF True] have suc: "unat (i + 1) = Suc (unat i)" .
    from True have lt: "unat i < unat delay" by (simp add: word_less_nat_alt)
    have "delayerMs_loop i delay s = delayerMs_loop (i + 1) delay (delay_ms_1 s)"
      using True by (subst delayerMs_loop.simps) simp
    also have "\<dots> = (delay_ms_1 s)\<lparr>elapsed_ms := elapsed_ms (delay_ms_1 s) + (unat delay - unat (i + 1))\<rparr>"
      using "1" True by simp
    also have "\<dots> = s\<lparr>elapsed_ms := elapsed_ms s + (unat delay - unat i)\<rparr>"
      using suc lt by (simp add: delay_ms_1_def)
    finally show ?thesis .
  next
    case False
    then have "unat delay - unat i = 0" by (simp add: word_less_nat_alt)
    with False show ?thesis by (subst delayerMs_loop.simps) simp
  qed
qed

lemma tmr1_split:
  "push_bit 8 (ucast (ucast (drop_bit 8 c) :: 8 word)) OR ucast (ucast c :: 8 word) = (c :: 16 word)"
  by (rule bit_word_eqI) (auto simp: bit_simps)

lemma delayerMs_eq:
  "delayerMs d p s =
     (if TMR1ON s
      then s\<lparr>TMR1H := ucast (drop_bit 8 (tmr1 s + of_nat p)), TMR1L := ucast (tmr1 s + of_nat p),
             elapsed_ms := elapsed_ms s + unat d\<rparr>
      else s\<lparr>elapsed_ms := elapsed_ms s + unat d\<rparr>)"
  by (simp add: delayerMs_def delayerMs_loop_elapsed timer1_count_def TMR1ON_def tmr1_def Let_def)

lemma delayerMs_fields:
  "LATA (delayerMs d p s) = LATA s"
  "LATC (delayerMs d p s) = LATC s"
  "T1CON (delayerMs d p s) = T1CON s"
  "freq (delayerMs d p s) = freq s"
  "elapsed_ms (delayerMs d p s) = elapsed_ms s + unat d"
  by (simp_all add: delayerMs_eq)

section \<open>The effect of the loop body\<close>

lemma execs_append: "execs (cs @ ds) s = execs ds (execs cs s)"
  by (induction cs arbitrary: s) simp_all

lemma run_append: "run (cs @ ds) s = run cs s @ run ds (execs cs s)"
  by (induction cs arbitrary: s) simp_all

lemma bitfield_write_twice [simp]:
  "bitfield_write n v (bitfield_write n w r) = bitfield_write n v r"
  by (rule bit_word_eqI) (simp add: bit_bitfield_write)

lemma window_effect:
  "execs (window_stmts p) s =
     s\<lparr>T1CON := bitfield_write 0 OFF (T1CON s),
       TMR1H := ucast (drop_bit 8 (tmr1 s + of_nat p)), TMR1L := ucast (tmr1 s + of_nat p),
       elapsed_ms := elapsed_ms s + 1000, freq := tmr1 s + of_nat p\<rparr>"
  by (simp add: window_stmts_def delayerMs_eq TMR1ON_def bit_bitfield_write bit_ON_OFF)
    (simp add: tmr1_def tmr1_split)

lemma branch_LED_IGNITION:
  "LED_IGNITION (execs (branch_stmts b) s) = (b = IGNITION)"
  by (cases b) (simp_all add: LED_IGNITION_def bit_bitfield_write bit_ON_OFF)

lemma branch_MOS_GATE:
  "MOS_GATE (execs (branch_stmts b) s) = (b = IGNITION)"
  by (cases b) (simp_all add: MOS_GATE_def bit_bitfield_write bit_ON_OFF)

lemma branch_LED_LINK:
  "LED_LINK (execs (branch_stmts b) s) =
     (case b of IGNITION \<Rightarrow> False | LINK_OK \<Rightarrow> \<not> LED_LINK s | IDLE \<Rightarrow> True)"
  by (cases b) (simp_all add: LED_LINK_def bit_bitfield_write bit_ON_OFF bit_NOT_bitfield_read)

lemma cycle_effect:
  "cycle p s =
     s\<lparr>T1CON := bitfield_write 0 OFF (T1CON s), TMR1H := 0, TMR1L := 0,
       elapsed_ms := elapsed_ms s + 1000, freq := tmr1 s + of_nat p,
       LATC := LATC (execs (branch_stmts (classify (tmr1 s + of_nat p))) s)\<rparr>"
  by (cases "classify (tmr1 s + of_nat p)")
    (simp_all add: cycle_def cycle_stmts_def execs_append window_effect reset_stmts_def)

section \<open>The effect of the prologue of \<open>main\<close>\<close>

lemma startup_unroll:
  "startup_stmts q 0 =
     concat (map (\<lambda>i. [Set_LED_IGNITION ON, Set_LED_LINK OFF, Call_delayerMs 50 (q (2 * i)),
                        Set_LED_IGNITION OFF, Set_LED_LINK ON, Call_delayerMs 50 (q (2 * i + 1))])
        [0..<5])"
  by (simp add: startup_stmts.simps upt_rec)

lemma bitfield_write_absorb [simp]:
  "bitfield_write m v (bitfield_write n w (bitfield_write m u r)) =
   bitfield_write m v (bitfield_write n w r)"
  by (rule bit_word_eqI) (simp add: bit_bitfield_write)

lemma leds_idle: "bitfield_write (Suc 0) ON (bitfield_write 0 OFF 0) = 2"
  by (simp add: bitfield_write_def bit_ON_OFF set_bit_eq_or)

lemma startup_effect:
  "execs (startup_stmts q 0) (init s) = (init s)\<lparr>LATC := 2, elapsed_ms := elapsed_ms s + 500\<rparr>"
  by (simp add: startup_unroll upt_rec delayerMs_eq TMR1ON_def init_def)
    (simp add: leds_idle)

lemma loop_entry_effect:
  "loop_entry q s0 =
     s0\<lparr>LATA := 0, LATC := 2, T1CON := 0x84, TMR1H := 0, TMR1L := 0,
        elapsed_ms := elapsed_ms s0 + 500\<rparr>"
  by (simp add: loop_entry_def prologue_stmts_def execs_append startup_effect)
     (simp add: init_def bitfield_write_def bit_ON_OFF)

section \<open>The trace of \<open>main\<close>: counter and reads\<close>

lemma ON_neq_OFF [simp]: "ON \<noteq> OFF" "OFF \<noteq> ON"
  by (simp_all add: ON_def OFF_def)

lemma main_trace_split:
  "main_trace q ps s0 =
     run (prologue_stmts q) s0 @ run (loop_stmts ps (loop_entry q s0)) (loop_entry q s0)"
  by (simp add: main_trace_def main_stmts_def run_append loop_entry_def)

lemma loop_trace_Cons:
  "run (loop_stmts (p # ps) s) s =
     run (cycle_stmts p s) s @ run (loop_stmts ps (cycle p s)) (cycle p s)"
  by (simp add: run_append cycle_def)

lemma tmr1_cycle [simp]: "tmr1 (cycle p s) = 0"
  by (simp add: cycle_effect tmr1_def)

lemma tmr1_loop_entry [simp]: "tmr1 (loop_entry q s0) = 0"
  by (simp add: loop_entry_effect tmr1_def)

lemma freq_cycle: "freq (cycle p s) = tmr1 s + of_nat p"
  by (simp add: cycle_effect)

lemma cycle_trace_open:
  "map (tmr1 \<circ> snd) (filter (\<lambda>e. fst e = Set_TMR1ON ON) (run (cycle_stmts p s) s)) = [tmr1 s]"
  by (cases "classify (freq (execs (window_stmts p) s))")
    (simp_all add: cycle_stmts_def run_append window_stmts_def reset_stmts_def tmr1_def)

lemma cycle_trace_read:
  "map (freq \<circ> snd) (filter (\<lambda>e. fst e = Merge_TMR1L) (run (cycle_stmts p s) s))
     = [tmr1 s + of_nat p]"
  using window_effect [of p s]
  by (cases "classify (freq (execs (window_stmts p) s))")
    (simp_all add: cycle_stmts_def run_append window_stmts_def reset_stmts_def)

lemma cycle_trace_enabled:
  "map fst (filter (TMR1ON \<circ> snd) (run (cycle_stmts p s) s))
     = [Set_TMR1ON ON, Call_delayerMs 1000 p]"
  by (cases "classify (freq (execs (window_stmts p) s))")
    (simp_all add: cycle_stmts_def run_append window_stmts_def reset_stmts_def
       TMR1ON_def delayerMs_eq bit_bitfield_write bit_ON_OFF)

lemma loop_trace_open:
  "tmr1 s = 0 \<Longrightarrow>
   map (tmr1 \<circ> snd) (filter (\<lambda>e. fst e = Set_TMR1ON ON) (run (loop_stmts ps s) s))
     = replicate (length ps) 0"
proof (induction ps arbitrary: s)
  case Nil
  show ?case by simp
next
  case (Cons p ps)
  have "map (tmr1 \<circ> snd) (filter (\<lambda>e. fst e = Set_TMR1ON ON) (run (loop_stmts ps (cycle p s)) (cycle p s)))
          = replicate (length ps) 0"
    by (rule Cons.IH) simp
  with Cons.prems show ?case
    by (simp only: loop_trace_Cons filter_append map_append cycle_trace_open) simp
qed

lemma loop_trace_read:
  "tmr1 s = 0 \<Longrightarrow>
   map (freq \<circ> snd) (filter (\<lambda>e. fst e = Merge_TMR1L) (run (loop_stmts ps s) s))
     = map of_nat ps"
proof (induction ps arbitrary: s)
  case Nil
  show ?case by simp
next
  case (Cons p ps)
  have "map (freq \<circ> snd) (filter (\<lambda>e. fst e = Merge_TMR1L) (run (loop_stmts ps (cycle p s)) (cycle p s)))
          = map of_nat ps"
    by (rule Cons.IH) simp
  with Cons.prems show ?case
    by (simp only: loop_trace_Cons filter_append map_append cycle_trace_read) simp
qed

lemma loop_trace_enabled:
  "map fst (filter (TMR1ON \<circ> snd) (run (loop_stmts ps s) s))
     = concat (map (\<lambda>p. [Set_TMR1ON ON, Call_delayerMs 1000 p]) ps)"
proof (induction ps arbitrary: s)
  case Nil
  show ?case by simp
next
  case (Cons p ps)
  show ?case
    by (simp only: loop_trace_Cons filter_append map_append cycle_trace_enabled Cons.IH) simp
qed

lemma prologue_unroll:
  "prologue_stmts q =
     Call_init #
     concat (map (\<lambda>i. [Set_LED_IGNITION ON, Set_LED_LINK OFF, Call_delayerMs 50 (q (2 * i)),
                        Set_LED_IGNITION OFF, Set_LED_LINK ON, Call_delayerMs 50 (q (2 * i + 1))])
        [0..<5])
     @ [Clear_TMR1H, Clear_TMR1L, Set_INPUT_DISABLE OFF]"
  by (simp add: prologue_stmts_def startup_unroll)

lemma filter_run_none:
  "\<forall>c \<in> set cs. \<not> P c \<Longrightarrow> filter (\<lambda>e. P (fst e)) (run cs s) = []"
  by (induction cs arbitrary: s) simp_all

lemma exec_keeps_disabled:
  "\<not> TMR1ON s \<Longrightarrow> \<forall>v. c \<noteq> Set_TMR1ON v \<Longrightarrow> \<not> TMR1ON (exec c s)"
  by (cases c) (simp_all add: TMR1ON_def init_def delayerMs_eq)

lemma run_keeps_disabled:
  "\<not> TMR1ON s \<Longrightarrow> \<forall>c \<in> set cs. \<forall>v. c \<noteq> Set_TMR1ON v \<Longrightarrow>
   filter (TMR1ON \<circ> snd) (run cs s) = []"
proof (induction cs arbitrary: s)
  case Nil
  show ?case by simp
next
  case (Cons c cs)
  from Cons.prems have "\<not> TMR1ON (exec c s)"
    by (simp add: exec_keeps_disabled)
  with Cons show ?case by simp
qed

lemma prologue_no_timer_write: "\<forall>c \<in> set (prologue_stmts q). \<forall>v. c \<noteq> Set_TMR1ON v"
  by (simp add: prologue_unroll upt_rec)

lemma prologue_trace_open:
  "filter (\<lambda>e. fst e = Set_TMR1ON ON) (run (prologue_stmts q) s0) = []"
  by (rule filter_run_none) (simp add: prologue_no_timer_write)

lemma prologue_trace_reads:
  "filter (\<lambda>e. fst e = Read_TMR1H \<or> fst e = Merge_TMR1L) (run (prologue_stmts q) s0) = []"
  by (rule filter_run_none) (simp add: prologue_unroll upt_rec)

lemma prologue_trace_enabled:
  "filter (TMR1ON \<circ> snd) (run (prologue_stmts q) s0) = []"
proof -
  obtain cs where cs: "prologue_stmts q = Call_init # cs"
    by (simp add: prologue_stmts_def)
  have off: "\<not> TMR1ON (init s0)"
    by (simp add: TMR1ON_def init_def)
  from prologue_no_timer_write [of q] cs have "\<forall>c \<in> set cs. \<forall>v. c \<noteq> Set_TMR1ON v"
    by simp
  with off have "filter (TMR1ON \<circ> snd) (run cs (init s0)) = []"
    by (rule run_keeps_disabled)
  with off cs show ?thesis by simp
qed

lemma prologue_trace_read:
  "filter (\<lambda>e. fst e = Merge_TMR1L) (run (prologue_stmts q) s0) = []"
  by (rule filter_run_none) (simp add: prologue_unroll upt_rec)

section \<open>One pass of the loop, and consecutive passes\<close>

lemma cycle_LED_IGNITION:
  "LED_IGNITION (cycle p s) = (classify (freq (cycle p s)) = IGNITION)"
  using branch_LED_IGNITION [of "classify (tmr1 s + of_nat p)" s]
  by (simp add: cycle_effect LED_IGNITION_def)

lemma cycle_MOS_GATE:
  "MOS_GATE (cycle p s) = (classify (freq (cycle p s)) = IGNITION)"
  using branch_MOS_GATE [of "classify (tmr1 s + of_nat p)" s]
  by (simp add: cycle_effect MOS_GATE_def)

lemma cycle_LED_LINK:
  "LED_LINK (cycle p s) =
     (case classify (freq (cycle p s)) of
        IGNITION \<Rightarrow> False | LINK_OK \<Rightarrow> \<not> LED_LINK s | IDLE \<Rightarrow> True)"
  using branch_LED_LINK [of "classify (tmr1 s + of_nat p)" s]
  by (simp add: cycle_effect LED_LINK_def)

text \<open>While the window of a pass is counted, the MOS gate holds the value that the
  previous pass left.\<close>

lemma gate_held_during_window:
  "MOS_GATE (execs [Set_TMR1ON ON, Call_delayerMs 1000 p] s) = MOS_GATE s"
  by (simp add: MOS_GATE_def delayerMs_fields)

lemma cycles_freq: "tmr1 s = 0 \<Longrightarrow> map freq (cycles ps s) = map of_nat ps"
  by (induction ps arbitrary: s) (simp_all add: freq_cycle)

lemma cycles_MOS_GATE:
  "map MOS_GATE (cycles ps s) = map (\<lambda>s'. classify (freq s') = IGNITION) (cycles ps s)"
  by (induction ps arbitrary: s) (simp_all add: cycle_MOS_GATE)

lemma cycles_link_alternate:
  "\<forall>s' \<in> set (cycles ps s). classify (freq s') = LINK_OK \<Longrightarrow>
   map LED_LINK (cycles ps s) = map (\<lambda>k. even k \<noteq> LED_LINK s) [0..<length ps]"
proof (induction ps arbitrary: s)
  case Nil
  show ?case by simp
next
  case (Cons p ps)
  from Cons.prems have link: "classify (freq (cycle p s)) = LINK_OK"
    and rest: "\<forall>s' \<in> set (cycles ps (cycle p s)). classify (freq s') = LINK_OK"
    by simp_all
  from link have first: "LED_LINK (cycle p s) = (\<not> LED_LINK s)"
    by (simp add: cycle_LED_LINK)
  have "map LED_LINK (cycles ps (cycle p s))
          = map (\<lambda>k. even k \<noteq> LED_LINK (cycle p s)) [0..<length ps]"
    by (rule Cons.IH) (rule rest)
  with first show ?case
    by (simp add: map_upt_Suc del: upt_Suc)
qed

lemma classify_numeral [simp]:
  "classify 5000 = LINK_OK" "classify 4500 = LINK_OK" "classify 5500 = LINK_OK"
  "classify 450 = IGNITION" "classify 299 = IDLE" "classify 301 = IGNITION" "classify 0 = IDLE"
  by (simp_all add: classify_def IGNITION_MIN_def IGNITION_MAX_def YODA_MIN_def YODA_MAX_def)

lemma cycles_MOS_GATE_counts:
  "tmr1 s = 0 \<Longrightarrow>
   map MOS_GATE (cycles ps s) = map (\<lambda>p. classify (of_nat p) = IGNITION) ps"
proof -
  assume "tmr1 s = 0"
  then have "map (\<lambda>s'. classify (freq s') = IGNITION) (cycles ps s)
      = map (\<lambda>f. classify f = IGNITION) (map of_nat ps)"
    by (simp add: cycles_freq [symmetric] comp_def)
  then show ?thesis
    by (simp add: cycles_MOS_GATE comp_def)
qed

lemma cycle_trace_reads:
  "map (TMR1ON \<circ> snd)
     (filter (\<lambda>e. fst e = Read_TMR1H \<or> fst e = Merge_TMR1L) (run (cycle_stmts p s) s))
     = [False, False]"
  by (cases "classify (freq (execs (window_stmts p) s))")
    (simp_all add: cycle_stmts_def run_append window_stmts_def reset_stmts_def
       TMR1ON_def delayerMs_eq bit_bitfield_write bit_ON_OFF)

lemma loop_trace_reads:
  "map (TMR1ON \<circ> snd)
     (filter (\<lambda>e. fst e = Read_TMR1H \<or> fst e = Merge_TMR1L) (run (loop_stmts ps s) s))
     = replicate (2 * length ps) False"
proof (induction ps arbitrary: s)
  case Nil
  show ?case by simp
next
  case (Cons p ps)
  show ?case
    by (simp only: loop_trace_Cons filter_append map_append cycle_trace_reads Cons.IH) simp
qed

section \<open>The MOS gate over the run of \<open>main\<close>\<close>

lemma exec_keeps_gate_off:
  "\<not> MOS_GATE s \<Longrightarrow> \<forall>v. c = Set_MOS_GATE v \<longrightarrow> v = OFF \<Longrightarrow> \<not> MOS_GATE (exec c s)"
  by (cases c)
    (simp_all add: MOS_GATE_def init_def delayerMs_eq bit_bitfield_write bit_ON_OFF)

lemma run_gate_off:
  "\<not> MOS_GATE s \<Longrightarrow> \<forall>c \<in> set cs. \<forall>v. c = Set_MOS_GATE v \<longrightarrow> v = ON \<or> v = OFF \<Longrightarrow>
   filter (\<lambda>e. MOS_GATE (snd e)) (takeWhile (\<lambda>e. fst e \<noteq> Set_MOS_GATE ON) (run cs s)) = []"
proof (induction cs arbitrary: s)
  case Nil
  show ?case by simp
next
  case (Cons c cs)
  show ?case
  proof (cases "c = Set_MOS_GATE ON")
    case True
    then show ?thesis by simp
  next
    case False
    with Cons.prems have "\<forall>v. c = Set_MOS_GATE v \<longrightarrow> v = OFF"
      by auto
    with Cons.prems have off: "\<not> MOS_GATE (exec c s)"
      by (simp add: exec_keeps_gate_off)
    from Cons.prems have "\<forall>c \<in> set cs. \<forall>v. c = Set_MOS_GATE v \<longrightarrow> v = ON \<or> v = OFF"
      by simp
    with off have "filter (\<lambda>e. MOS_GATE (snd e))
        (takeWhile (\<lambda>e. fst e \<noteq> Set_MOS_GATE ON) (run cs (exec c s))) = []"
      by (rule Cons.IH)
    with False off show ?thesis by simp
  qed
qed

lemma cycle_gate_writes:
  "\<forall>c \<in> set (cycle_stmts p s). \<forall>v. c = Set_MOS_GATE v \<longrightarrow> v = ON \<or> v = OFF"
  by (cases "classify (freq (execs (window_stmts p) s))")
    (simp_all add: cycle_stmts_def window_stmts_def reset_stmts_def)

lemma loop_gate_writes:
  "\<forall>c \<in> set (loop_stmts ps s). \<forall>v. c = Set_MOS_GATE v \<longrightarrow> v = ON \<or> v = OFF"
proof (induction ps arbitrary: s)
  case Nil
  show ?case by simp
next
  case (Cons p ps)
  from cycle_gate_writes [of p s] Cons.IH [of "cycle p s"] show ?case
    by (simp add: ball_Un)
qed

lemma prologue_no_gate_write: "Set_MOS_GATE v \<notin> set (prologue_stmts q)"
  by (simp add: prologue_unroll upt_rec)

lemma main_gate_off_until_ignition:
  "filter (\<lambda>e. MOS_GATE (snd e))
     (takeWhile (\<lambda>e. fst e \<noteq> Set_MOS_GATE ON) (main_trace q ps s0)) = []"
proof -
  obtain cs where cs: "prologue_stmts q = Call_init # cs"
    by (simp add: prologue_stmts_def)
  let ?rest = "cs @ loop_stmts ps (loop_entry q s0)"
  have off: "\<not> MOS_GATE (init s0)"
    by (simp add: MOS_GATE_def init_def)
  from prologue_no_gate_write [of _ q] cs have "\<forall>c \<in> set cs. \<forall>v. c \<noteq> Set_MOS_GATE v"
    by auto
  with loop_gate_writes [of ps "loop_entry q s0"]
  have "\<forall>c \<in> set ?rest. \<forall>v. c = Set_MOS_GATE v \<longrightarrow> v = ON \<or> v = OFF"
    by (auto simp: ball_Un)
  with off have "filter (\<lambda>e. MOS_GATE (snd e))
      (takeWhile (\<lambda>e. fst e \<noteq> Set_MOS_GATE ON) (run ?rest (init s0))) = []"
    by (rule run_gate_off)
  moreover have "main_trace q ps s0 = (Call_init, init s0) # run ?rest (init s0)"
    by (simp add: main_trace_def main_stmts_def cs)
  ultimately show ?thesis
    using off by simp
qed

lemma cycle_gate_on_count:
  "filter (\<lambda>c. c = Set_MOS_GATE ON) (cycle_stmts p s)
     = (if classify (tmr1 s + of_nat p) = IGNITION then [Set_MOS_GATE ON] else [])"
  using window_effect [of p s]
  by (cases "classify (tmr1 s + of_nat p)")
    (simp_all add: cycle_stmts_def window_stmts_def reset_stmts_def)

lemma loop_gate_on_count:
  "tmr1 s = 0 \<Longrightarrow>
   length (filter (\<lambda>c. c = Set_MOS_GATE ON) (loop_stmts ps s))
     = length (filter (\<lambda>p. classify (of_nat p) = IGNITION) ps)"
proof (induction ps arbitrary: s)
  case Nil
  show ?case by simp
next
  case (Cons p ps)
  have "length (filter (\<lambda>c. c = Set_MOS_GATE ON) (loop_stmts ps (cycle p s)))
          = length (filter (\<lambda>p. classify (of_nat p) = IGNITION) ps)"
    by (rule Cons.IH) simp
  with Cons.prems show ?case
    by (simp add: cycle_gate_on_count)
qed

lemma main_gate_on_count:
  "length (filter (\<lambda>c. c = Set_MOS_GATE ON) (main_stmts q ps s0))
     = length (filter (\<lambda>p. classify (of_nat p) = IGNITION) ps)"
proof -
  have "filter (\<lambda>c. c = Set_MOS_GATE ON) (prologue_stmts q) = []"
    using prologue_no_gate_write [of ON q] by (auto simp: filter_empty_conv)
  then show ?thesis
    by (simp add: main_stmts_def loop_gate_on_count)
qed

section \<open>The LEDs at the entry of the loop and in the startup blink\<close>

lemma loop_entry_leds:
  "LED_LINK (loop_entry q s0)" "\<not> LED_IGNITION (loop_entry q s0)" "\<not> MOS_GATE (loop_entry q s0)"
  by (simp_all add: loop_entry_effect LED_LINK_def LED_IGNITION_def MOS_GATE_def)

lemma length_cycles [simp]: "length (cycles ps s) = length ps"
  by (induction ps arbitrary: s) simp_all

text \<open>The link LED after the first LINK_OK pass is decided by the pass immediately before
  it, or by the state before the passes when there is none: \<open>pre\<close> lists the bands of the
  passes before the first LINK_OK pass.\<close>

lemma cycles_last_before_link:
  "map (\<lambda>s'. classify (freq s')) (cycles ps s) = pre @ [LINK_OK] \<Longrightarrow> LINK_OK \<notin> set pre \<Longrightarrow>
   LED_LINK (last (cycles ps s)) = (if pre = [] then \<not> LED_LINK s else last pre = IGNITION)"
proof (induction pre arbitrary: ps s)
  case Nil
  then have "length (cycles ps s) = 1"
    by (metis append_Nil length_Cons length_map list.size(3) One_nat_def)
  then obtain p where ps: "ps = [p]"
    by (cases ps) simp_all
  with Nil show ?case
    by (simp add: cycle_LED_LINK)
next
  case (Cons b pre)
  from Cons.prems(1) obtain p ps' where ps: "ps = p # ps'"
    by (cases ps) simp_all
  with Cons.prems(1) have band: "classify (freq (cycle p s)) = b"
    and rest: "map (\<lambda>s'. classify (freq s')) (cycles ps' (cycle p s)) = pre @ [LINK_OK]"
    by simp_all
  from Cons.prems(2) have no_link: "b \<noteq> LINK_OK" and rest_no_link: "LINK_OK \<notin> set pre"
    by auto
  from band no_link have led: "LED_LINK (cycle p s) = (b = IDLE)"
    by (cases b) (simp_all add: cycle_LED_LINK)
  have ih: "LED_LINK (last (cycles ps' (cycle p s)))
      = (if pre = [] then \<not> LED_LINK (cycle p s) else last pre = IGNITION)"
    using rest rest_no_link by (rule Cons.IH)
  from rest have nonempty: "cycles ps' (cycle p s) \<noteq> []"
    by auto
  from no_link have "(b \<noteq> IDLE) = (b = IGNITION)"
    by (cases b) simp_all
  with ih led nonempty show ?case
    by (simp add: ps)
qed

lemma startup_observed:
  "map (\<lambda>e. (LED_IGNITION (snd e), LED_LINK (snd e), elapsed_ms (snd e) - elapsed_ms s))
      (filter (\<lambda>e. is_delay (fst e)) (run (startup_stmts q 0) s))
   = concat (map (\<lambda>i. [(True, False, 100 * i + 50), (False, True, 100 * i + 100)]) [0..<5])"
  by (simp add: startup_unroll upt_rec delayerMs_fields LED_IGNITION_def LED_LINK_def
      bit_bitfield_write bit_ON_OFF)

lemma startup_frame:
  "freq (execs (startup_stmts q 0) s) = freq s
   \<and> T1CON (execs (startup_stmts q 0) s) = T1CON s
   \<and> MOS_GATE (execs (startup_stmts q 0) s) = MOS_GATE s"
  by (simp add: startup_unroll upt_rec delayerMs_fields MOS_GATE_def bit_bitfield_write)

section \<open>The claims\<close>

text \<open>
  Claim C1.  In every pass of the steady-state loop the value left on \<open>MOS_GATE\<close> is ON
  if and only if the count read in that pass classifies as IGNITION, whatever the state
  before the pass: the count read is the timer value before the window plus the edges of
  the window; over the run of \<open>main\<close> the gate after each pass is ON exactly for the
  windows whose count is in the ignition band; the LINK_OK and the IDLE branch each
  contain \<open>MOS_GATE = OFF\<close> and leave the gate OFF from every state.
\<close>

theorem mos_gate_iff_ignition:
  "MOS_GATE (cycle p s) = (classify (freq (cycle p s)) = IGNITION)
   \<and> freq (cycle p s) = tmr1 s + of_nat p
   \<and> map MOS_GATE (cycles ps (loop_entry q s0)) = map (\<lambda>p. classify (of_nat p) = IGNITION) ps
   \<and> \<not> MOS_GATE (execs (branch_stmts LINK_OK) s)
   \<and> \<not> MOS_GATE (execs (branch_stmts IDLE) s)
   \<and> Set_MOS_GATE OFF \<in> set (branch_stmts LINK_OK)
   \<and> Set_MOS_GATE OFF \<in> set (branch_stmts IDLE)"
proof -
  have gate: "MOS_GATE (cycle p s) = (classify (freq (cycle p s)) = IGNITION)"
    by (rule cycle_MOS_GATE)
  have count: "freq (cycle p s) = tmr1 s + of_nat p"
    by (rule freq_cycle)
  have run: "map MOS_GATE (cycles ps (loop_entry q s0))
      = map (\<lambda>p. classify (of_nat p) = IGNITION) ps"
    by (rule cycles_MOS_GATE_counts) simp
  have link: "\<not> MOS_GATE (execs (branch_stmts LINK_OK) s)"
    by (simp only: branch_MOS_GATE) simp
  have idle: "\<not> MOS_GATE (execs (branch_stmts IDLE) s)"
    by (simp only: branch_MOS_GATE) simp
  have "Set_MOS_GATE OFF \<in> set (branch_stmts LINK_OK)"
    and "Set_MOS_GATE OFF \<in> set (branch_stmts IDLE)"
    by simp_all
  with gate count run link idle show ?thesis
    by blast
qed

text \<open>
  Claim C2.  The branch of the loop body is selected by the 16-bit count alone: for every
  \<open>n\<close> from 0 to 65535, a count in [300, 600] selects IGNITION, a count in [4500, 5500]
  selects LINK_OK, and every other count selects IDLE; both bounds of both bands are
  inclusive.
\<close>

theorem classify_bands:
  "n \<le> 65535 \<Longrightarrow>
   classify (of_nat n) =
     (if 300 \<le> n \<and> n \<le> 600 then IGNITION
      else if 4500 \<le> n \<and> n \<le> 5500 then LINK_OK
      else IDLE)"
  by (simp add: classify_def IGNITION_MIN_def IGNITION_MAX_def YODA_MIN_def YODA_MAX_def
      word_le_nat_alt unat_of_nat)

text \<open>C2 at the boundaries of the bands and of the 16-bit range.\<close>

theorem classify_bands_witness:
  "classify (of_nat 0) = IDLE \<and> classify (of_nat 299) = IDLE
   \<and> classify (of_nat 300) = IGNITION \<and> classify (of_nat 600) = IGNITION
   \<and> classify (of_nat 601) = IDLE \<and> classify (of_nat 4499) = IDLE
   \<and> classify (of_nat 4500) = LINK_OK \<and> classify (of_nat 5500) = LINK_OK
   \<and> classify (of_nat 5501) = IDLE \<and> classify (of_nat 65535) = IDLE"
  using classify_bands [of 0] classify_bands [of 299] classify_bands [of 300]
    classify_bands [of 600] classify_bands [of 601] classify_bands [of 4499]
    classify_bands [of 4500] classify_bands [of 5500] classify_bands [of 5501]
    classify_bands [of 65535]
  by simp

text \<open>
  Claim C3.  For every state before the pass, the three outputs after the pass follow the
  table: IGNITION gives (ON, OFF, ON), LINK_OK gives (OFF, the negation of the link LED
  before the pass, OFF), IDLE gives (OFF, ON, OFF), in the order ignition LED, link LED,
  MOS gate.
\<close>

theorem drive_table:
  "(LED_IGNITION (cycle p s), LED_LINK (cycle p s), MOS_GATE (cycle p s)) =
     (case classify (freq (cycle p s)) of
        IGNITION \<Rightarrow> (True, False, True)
      | LINK_OK \<Rightarrow> (False, \<not> LED_LINK s, False)
      | IDLE \<Rightarrow> (False, True, False))"
  by (cases "classify (freq (cycle p s))")
    (simp_all add: cycle_LED_IGNITION cycle_LED_LINK cycle_MOS_GATE)

text \<open>
  Claim C4.  Over any number of consecutive passes that all classify as LINK_OK, starting
  with the link LED off, the link LED after the passes reads ON, OFF, ON, OFF, ...: the
  \<open>k\<close>-th value, counted from 0, is ON exactly when \<open>k\<close> is even.
\<close>

theorem link_led_alternates:
  assumes "\<not> LED_LINK s"
    and "\<forall>s' \<in> set (cycles ps s). classify (freq s') = LINK_OK"
  shows "map LED_LINK (cycles ps s) = map even [0..<length ps]"
  using cycles_link_alternate [OF assms(2)] assms(1) by simp

text \<open>C4 on four passes with counts 5000, 4500, 5500 and 5000.\<close>

theorem link_led_alternates_witness:
  "map LED_LINK
     (cycles [5000, 4500, 5500, 5000]
        \<lparr>LATA = 0, LATC = 0, T1CON = 0x84, TMR1H = 0, TMR1L = 0, freq = 0, elapsed_ms = 0\<rparr>)
   = [True, False, True, False]"
proof -
  let ?s = "\<lparr>LATA = 0, LATC = 0, T1CON = 0x84, TMR1H = 0, TMR1L = 0, freq = 0, elapsed_ms = 0\<rparr>"
  have off: "\<not> LED_LINK ?s"
    by (simp add: LED_LINK_def)
  have "tmr1 ?s = 0"
    by (simp add: tmr1_def)
  then have link: "\<forall>s' \<in> set (cycles [5000, 4500, 5500, 5000] ?s). classify (freq s') = LINK_OK"
    by (simp add: freq_cycle)
  from link_led_alternates [OF off link] show ?thesis
    by (simp add: upt_rec)
qed

text \<open>
  Claim C5, as amended.  In the first two passes of the loop with counts 299 and then 301,
  the first pass classifies as IDLE and the second as IGNITION: 299 is below the inclusive
  lower bound 300 of the ignition band, 301 is inside the band.
\<close>

theorem scenario_D_bands:
  "map (\<lambda>s'. classify (freq s')) (cycles [299, 301] (loop_entry q s0)) = [IDLE, IGNITION]"
  using cycles_freq [of "loop_entry q s0" "[299, 301]"] by simp

text \<open>C5 as stated fails: the two passes do not both classify as IDLE.\<close>

theorem scenario_D_counterexample:
  "map (\<lambda>s'. classify (freq s'))
     (cycles [299, 301]
        (loop_entry (\<lambda>k. 0)
           \<lparr>LATA = 0, LATC = 0, T1CON = 0, TMR1H = 0, TMR1L = 0, freq = 0, elapsed_ms = 0\<rparr>))
   \<noteq> [IDLE, IDLE]"
  using cycles_freq [of "loop_entry (\<lambda>k. 0)
           \<lparr>LATA = 0, LATC = 0, T1CON = 0, TMR1H = 0, TMR1L = 0, freq = 0, elapsed_ms = 0\<rparr>" "[299, 301]"]
  by simp

text \<open>
  Claim C6.  Over the run of \<open>main\<close>, the timer value is 0 in the state left by every
  \<open>TMR1ON = ON\<close>, so every window opens on a cleared counter; the value that each pass
  reads into \<open>freq\<close> is the number of edges of its own window (modulo \<open>2^16\<close>), with
  nothing carried over from earlier windows; and a pass leaves the timer at 0 from every
  state and for every count.
\<close>

theorem counter_reset_before_window:
  "map (tmr1 \<circ> snd) (filter (\<lambda>e. fst e = Set_TMR1ON ON) (main_trace q ps s0))
     = replicate (length ps) 0
   \<and> map (freq \<circ> snd) (filter (\<lambda>e. fst e = Merge_TMR1L) (main_trace q ps s0))
     = map of_nat ps
   \<and> tmr1 (cycle p s) = 0"
  by (simp add: main_trace_split prologue_trace_open prologue_trace_read
      loop_trace_open loop_trace_read)

text \<open>
  Claim C7.  In every pass the statement \<open>TMR1ON = OFF\<close> comes before the two reads of
  the count registers; over the run of \<open>main\<close> the counter is disabled in the state of
  every read, and the only states in which the counter is enabled are those left by
  \<open>TMR1ON = ON\<close> and by the window delay, so every write of an output happens with the
  window closed.
\<close>

theorem counter_disabled_before_read:
  "take 5 (cycle_stmts p s)
     = [Set_TMR1ON ON, Call_delayerMs 1000 p, Set_TMR1ON OFF, Read_TMR1H, Merge_TMR1L]
   \<and> map (TMR1ON \<circ> snd)
       (filter (\<lambda>e. fst e = Read_TMR1H \<or> fst e = Merge_TMR1L) (main_trace q ps s0))
     = replicate (2 * length ps) False
   \<and> map fst (filter (TMR1ON \<circ> snd) (main_trace q ps s0))
     = concat (map (\<lambda>p. [Set_TMR1ON ON, Call_delayerMs 1000 p]) ps)"
  by (simp add: main_trace_split prologue_trace_enabled loop_trace_enabled
      prologue_trace_reads loop_trace_reads cycle_stmts_def window_stmts_def)

text \<open>
  Claim C8.  Before the loop, \<open>main\<close> runs the startup blink once: exactly five
  iterations, each switching the ignition LED on and the link LED off, waiting 50 ms, then
  switching the ignition LED off and the link LED on, and waiting 50 ms.  At the end of the
  ten delays the two LEDs read (ON, OFF) and (OFF, ON) in turn, 50 ms apart, from every
  state and for every input at the clock pin.  The blink does not touch \<open>freq\<close>,
  \<open>T1CON\<close> or the MOS gate, and after \<open>init\<close> it changes nothing but the LED
  latches and the clock.
\<close>

theorem startup_blink:
  "main_stmts q ps s0
     = [Call_init] @ startup_stmts q 0 @ [Clear_TMR1H, Clear_TMR1L, Set_INPUT_DISABLE OFF]
       @ loop_stmts ps (loop_entry q s0)
   \<and> startup_stmts q 0
     = concat (map (\<lambda>i. [Set_LED_IGNITION ON, Set_LED_LINK OFF, Call_delayerMs 50 (q (2 * i)),
                          Set_LED_IGNITION OFF, Set_LED_LINK ON, Call_delayerMs 50 (q (2 * i + 1))])
         [0..<5])
   \<and> map (\<lambda>e. (LED_IGNITION (snd e), LED_LINK (snd e), elapsed_ms (snd e) - elapsed_ms s))
       (filter (\<lambda>e. is_delay (fst e)) (run (startup_stmts q 0) s))
     = concat (map (\<lambda>i. [(True, False, 100 * i + 50), (False, True, 100 * i + 100)]) [0..<5])
   \<and> freq (execs (startup_stmts q 0) s) = freq s
   \<and> T1CON (execs (startup_stmts q 0) s) = T1CON s
   \<and> MOS_GATE (execs (startup_stmts q 0) s) = MOS_GATE s
   \<and> execs (startup_stmts q 0) (init s)
     = (init s)\<lparr>LATC := 2, elapsed_ms := elapsed_ms s + 500\<rparr>"
proof -
  have "main_stmts q ps s0
     = [Call_init] @ startup_stmts q 0 @ [Clear_TMR1H, Clear_TMR1L, Set_INPUT_DISABLE OFF]
       @ loop_stmts ps (loop_entry q s0)"
    by (simp add: main_stmts_def prologue_stmts_def)
  with startup_unroll [of q] startup_observed [of s q] startup_frame [of q s]
    startup_effect [of q s]
  show ?thesis
    by blast
qed

text \<open>
  Claim C9.  Over the run of \<open>main\<close>, starting with the state that \<open>init\<close> leaves, no
  state before the first \<open>MOS_GATE = ON\<close> has the MOS gate on.  \<open>init\<close> clears both
  latch registers; no statement before the loop writes the gate; in a pass only the
  ignition branch contains \<open>MOS_GATE = ON\<close>; and \<open>main\<close> executes \<open>MOS_GATE = ON\<close>
  once for every window whose count is in the ignition band, and never otherwise.
\<close>

theorem mos_gate_off_until_first_ignition:
  "filter (\<lambda>e. MOS_GATE (snd e))
     (takeWhile (\<lambda>e. fst e \<noteq> Set_MOS_GATE ON) (main_trace q ps s0)) = []
   \<and> length (filter (\<lambda>c. c = Set_MOS_GATE ON) (main_stmts q ps s0))
     = length (filter (\<lambda>p. classify (of_nat p) = IGNITION) ps)
   \<and> LATA (init s0) = 0 \<and> LATC (init s0) = 0
   \<and> Set_MOS_GATE v \<notin> set (prologue_stmts q)
   \<and> (Set_MOS_GATE ON \<in> set (branch_stmts b)) = (b = IGNITION)
   \<and> Set_MOS_GATE ON \<notin> set (window_stmts p)
   \<and> Set_MOS_GATE ON \<notin> set reset_stmts"
proof -
  have "LATA (init s0) = 0" and "LATC (init s0) = 0"
    by (simp_all add: init_def)
  moreover have "(Set_MOS_GATE ON \<in> set (branch_stmts b)) = (b = IGNITION)"
    by (cases b) simp_all
  moreover have "Set_MOS_GATE ON \<notin> set (window_stmts p)"
    and "Set_MOS_GATE ON \<notin> set reset_stmts"
    by (simp_all add: window_stmts_def reset_stmts_def)
  ultimately show ?thesis
    using main_gate_off_until_ignition [of q ps s0] main_gate_on_count [of q ps s0]
      prologue_no_gate_write [of v q]
    by blast
qed

text \<open>
  Claim C10, as amended.  At the first entry into the loop the link LED is ON and the
  ignition LED is OFF.  The first pass that classifies as LINK_OK leaves the link LED OFF,
  unless the pass immediately before it classified as IGNITION; in that case, and only in
  that case, it leaves the link LED ON.  Here \<open>pre\<close> lists the bands of the passes before
  the first LINK_OK pass.
\<close>

theorem first_link_ok_after_startup:
  "LED_LINK (loop_entry q s0) \<and> \<not> LED_IGNITION (loop_entry q s0)
   \<and> (map (\<lambda>s'. classify (freq s')) (cycles ps (loop_entry q s0)) = pre @ [LINK_OK]
        \<and> LINK_OK \<notin> set pre
      \<longrightarrow> LED_LINK (last (cycles ps (loop_entry q s0))) = (pre \<noteq> [] \<and> last pre = IGNITION))"
  using loop_entry_leds [of q s0] cycles_last_before_link [of ps "loop_entry q s0" pre]
  by auto

text \<open>
  C10 as amended, after a startup from cleared registers: on the counts 450, 0 and 5000
  the pass before the first LINK_OK pass is IDLE and the link LED ends OFF, although an
  IGNITION pass came earlier; on the count 5000 alone the first pass is LINK_OK and the
  link LED ends OFF.
\<close>

theorem first_link_ok_after_startup_witness:
  "LED_LINK (loop_entry (\<lambda>k. 0)
      \<lparr>LATA = 0, LATC = 0, T1CON = 0, TMR1H = 0, TMR1L = 0, freq = 0, elapsed_ms = 0\<rparr>)
   \<and> \<not> LED_IGNITION (loop_entry (\<lambda>k. 0)
      \<lparr>LATA = 0, LATC = 0, T1CON = 0, TMR1H = 0, TMR1L = 0, freq = 0, elapsed_ms = 0\<rparr>)
   \<and> map (\<lambda>s'. classify (freq s'))
       (cycles [450, 0, 5000] (loop_entry (\<lambda>k. 0)
          \<lparr>LATA = 0, LATC = 0, T1CON = 0, TMR1H = 0, TMR1L = 0, freq = 0, elapsed_ms = 0\<rparr>))
     = [IGNITION, IDLE, LINK_OK]
   \<and> \<not> LED_LINK (last (cycles [450, 0, 5000] (loop_entry (\<lambda>k. 0)
      \<lparr>LATA = 0, LATC = 0, T1CON = 0, TMR1H = 0, TMR1L = 0, freq = 0, elapsed_ms = 0\<rparr>)))
   \<and> map (\<lambda>s'. classify (freq s'))
       (cycles [5000] (loop_entry (\<lambda>k. 0)
          \<lparr>LATA = 0, LATC = 0, T1CON = 0, TMR1H = 0, TMR1L = 0, freq = 0, elapsed_ms = 0\<rparr>))
     = [LINK_OK]
   \<and> \<not> LED_LINK (last (cycles [5000] (loop_entry (\<lambda>k. 0)
      \<lparr>LATA = 0, LATC = 0, T1CON = 0, TMR1H = 0, TMR1L = 0, freq = 0, elapsed_ms = 0\<rparr>)))"
proof -
  let ?e = "loop_entry (\<lambda>k. 0)
      \<lparr>LATA = 0, LATC = 0, T1CON = 0, TMR1H = 0, TMR1L = 0, freq = 0, elapsed_ms = 0\<rparr>"
  have bands: "map (\<lambda>s'. classify (freq s')) (cycles [450, 0, 5000] ?e)
      = [IGNITION, IDLE] @ [LINK_OK]"
    by (simp add: freq_cycle)
  have first: "LINK_OK \<notin> set [IGNITION, IDLE]"
    by simp
  have bands1: "map (\<lambda>s'. classify (freq s')) (cycles [5000] ?e) = [] @ [LINK_OK]"
    by (simp add: freq_cycle)
  have first1: "LINK_OK \<notin> set []"
    by simp
  from first_link_ok_after_startup [of "\<lambda>k. 0" _ "[450, 0, 5000]" "[IGNITION, IDLE]"]
    bands first
  have entry: "LED_LINK ?e \<and> \<not> LED_IGNITION ?e"
    and three: "LED_LINK (last (cycles [450, 0, 5000] ?e))
      = ([IGNITION, IDLE] \<noteq> [] \<and> last [IGNITION, IDLE] = IGNITION)"
    by blast+
  from first_link_ok_after_startup [of "\<lambda>k. 0" _ "[5000]" "[]"] bands1 first1
  have one: "LED_LINK (last (cycles [5000] ?e)) = (([]::band list) \<noteq> [] \<and> last [] = IGNITION)"
    by blast
  from three have "\<not> LED_LINK (last (cycles [450, 0, 5000] ?e))"
    by simp
  moreover from one have "\<not> LED_LINK (last (cycles [5000] ?e))"
    by simp
  moreover from bands have "map (\<lambda>s'. classify (freq s')) (cycles [450, 0, 5000] ?e)
      = [IGNITION, IDLE, LINK_OK]"
    by simp
  moreover from bands1 have "map (\<lambda>s'. classify (freq s')) (cycles [5000] ?e) = [LINK_OK]"
    by simp
  ultimately show ?thesis
    using entry by blast
qed

text \<open>
  C10 as stated fails: after a startup from cleared registers and the counts 450 and 5000,
  the second pass is the first that classifies as LINK_OK, and it leaves the link LED ON.
\<close>

theorem first_link_ok_counterexample:
  "map (\<lambda>s'. classify (freq s'))
     (cycles [450, 5000] (loop_entry (\<lambda>k. 0)
        \<lparr>LATA = 0, LATC = 0, T1CON = 0, TMR1H = 0, TMR1L = 0, freq = 0, elapsed_ms = 0\<rparr>))
     = [IGNITION, LINK_OK]
   \<and> LED_LINK (last (cycles [450, 5000] (loop_entry (\<lambda>k. 0)
        \<lparr>LATA = 0, LATC = 0, T1CON = 0, TMR1H = 0, TMR1L = 0, freq = 0, elapsed_ms = 0\<rparr>)))"
  by (simp add: freq_cycle cycle_LED_LINK)

end
